theory Spec2Isabelle
  imports Main "HOL-Library.Word" "HOL-Library.Multiset" "HOL-Library.Signed_Division"
begin

section \<open>Data model\<close>

text \<open>
  Go's \<^verbatim>\<open>int\<close> is a 64-bit two's complement integer here (the source assigns
  \<^verbatim>\<open>math.MaxInt64\<close> to an \<^verbatim>\<open>int\<close>). It is a \<open>64 word\<close>: \<open>+\<close> and \<open>-\<close> wrap
  around, and the comparisons of the source are the signed ones, \<open><s\<close> and \<open>\<le>s\<close>.
\<close>

type_synonym int64 = "64 word"

definition MaxInt64 :: int64 where
  "MaxInt64 = 9223372036854775807"

definition MinInt64 :: int64 where
  "MinInt64 = - 9223372036854775808"

text \<open>
  Modelled from the spec: the type \<^verbatim>\<open>Interval\<close> is declared in a file of the repository
  that is not under src/. The spec gives it as \<^verbatim>\<open>{low: integer, high: integer}\<close>, the
  closed range [low, high]; intervals.go reads the fields \<^verbatim>\<open>Low\<close> and \<^verbatim>\<open>High\<close>.
  The collection stores pointers; the embedding stores the values, so an interval is
  never nil and is not changed behind the collection's back.
\<close>

record Interval =
  Low :: int64
  High :: int64

text \<open>The struct \<^verbatim>\<open>intervals\<close> of intervals.go.\<close>

record intervals =
  Intervals :: "Interval list"
  MinLow :: int64
  MaxHigh :: int64
  Sorted :: bool

text \<open>
  Modelled from the spec: \<^verbatim>\<open>inBetweenInclusive\<close> is a helper of the repository that is
  not under src/. The spec describes the test as \<^verbatim>\<open>low <= value <= high\<close>, inclusive at
  both ends.
\<close>

definition inBetweenInclusive :: "int64 \<Rightarrow> int64 \<Rightarrow> int64 \<Rightarrow> bool" where
  "inBetweenInclusive i mn mx = (mn \<le>s i \<and> i \<le>s mx)"

text \<open>
  Modelled from the spec: the helpers \<^verbatim>\<open>max\<close> and \<^verbatim>\<open>min\<close> on \<^verbatim>\<open>int\<close> are not under
  src/. The spec uses them as the greater and the smaller of two integers.
\<close>

definition max_i :: "int64 \<Rightarrow> int64 \<Rightarrow> int64" where
  "max_i a b = (if b <s a then a else b)"

definition min_i :: "int64 \<Rightarrow> int64 \<Rightarrow> int64" where
  "min_i a b = (if a <s b then a else b)"

text \<open>
  Modelled from the spec: the comparator \<^verbatim>\<open>ByLow\<close> is not under src/. The spec gives
  it as the order over intervals by low bound only, ascending: \<open>Less a b\<close> is the
  comparator's \<^verbatim>\<open>Less(i, j)\<close> on the elements at \<^verbatim>\<open>i\<close> and \<^verbatim>\<open>j\<close>.
\<close>

definition Less :: "Interval \<Rightarrow> Interval \<Rightarrow> bool" where
  "Less a b = (Low a <s Low b)"

section \<open>The library sort\<close>

text \<open>
  \<^verbatim>\<open>sort.Sort\<close> belongs to Go's standard library. It is not stable; what it promises is
  that the slice afterwards holds the same elements and that no element is \<^verbatim>\<open>Less\<close> than
  one before it. The operations below take the sort as a parameter \<open>srt\<close>, and the
  theorems assume this contract of it and nothing more.
\<close>

definition sorted_ByLow :: "Interval list \<Rightarrow> bool" where
  "sorted_ByLow xs = sorted_wrt (\<lambda>a b. \<not> Less b a) xs"

definition sort_contract :: "(Interval list \<Rightarrow> Interval list) \<Rightarrow> bool" where
  "sort_contract srt = (\<forall>xs. mset (srt xs) = mset xs \<and> sorted_ByLow (srt xs))"

text \<open>
  One sort that meets the contract: the insertion sort that \<^verbatim>\<open>sort.Sort\<close> itself runs
  on a short slice,
  \<^verbatim>\<open>for i := a + 1; i < b; i++ { for j := i; j > a && Less(j, j-1); j-- { Swap(j, j-1) } }\<close>.
  \<open>bubble x rs\<close> is the inner loop: \<open>rs\<close> is the part of the slice left of \<open>x\<close>, nearest
  element first.
\<close>

fun bubble :: "Interval \<Rightarrow> Interval list \<Rightarrow> Interval list" where
  "bubble x [] = [x]"
| "bubble x (y # rs) = (if Less x y then y # bubble x rs else x # y # rs)"

definition insertionSort :: "Interval list \<Rightarrow> Interval list" where
  "insertionSort xs = rev (foldl (\<lambda>rs x. bubble x rs) [] xs)"

section \<open>Operations of the collection\<close>

definition NewIntervals :: "int64 \<Rightarrow> int64 \<Rightarrow> intervals" where
  "NewIntervals minLow maxHigh =
     \<lparr>Intervals = [], MinLow = minLow, MaxHigh = maxHigh, Sorted = False\<rparr>"

definition NewIntervalsDefault :: intervals where
  "NewIntervalsDefault = NewIntervals 0 MaxInt64"

definition Add :: "intervals \<Rightarrow> Interval \<Rightarrow> intervals" where
  "Add intvls itvl = intvls\<lparr>Intervals := Intervals intvls @ [itvl], Sorted := False\<rparr>"

text \<open>
  A method is modelled by a function that returns the method's result together with the
  collection as the method leaves it. \<^verbatim>\<open>FindIntervalsForValue\<close> only reads the
  collection.
\<close>

fun FindIntervalsForValue_loop :: "int64 \<Rightarrow> Interval list \<Rightarrow> Interval list \<Rightarrow> Interval list" where
  "FindIntervalsForValue_loop v matches [] = matches"
| "FindIntervalsForValue_loop v matches (intvl # rest) =
     FindIntervalsForValue_loop v
       (if inBetweenInclusive v (Low intvl) (High intvl) then matches @ [intvl] else matches)
       rest"

definition FindIntervalsForValue :: "intervals \<Rightarrow> int64 \<Rightarrow> Interval list \<times> intervals" where
  "FindIntervalsForValue intvls v =
     (FindIntervalsForValue_loop v [] (Intervals intvls), intvls)"

definition Sort :: "(Interval list \<Rightarrow> Interval list) \<Rightarrow> intervals \<Rightarrow> intervals" where
  "Sort srt intvls =
     (if \<not> Sorted intvls
      then intvls\<lparr>Intervals := srt (Intervals intvls), Sorted := True\<rparr>
      else intvls\<lparr>Sorted := True\<rparr>)"

text \<open>
  The walk of \<^verbatim>\<open>Gaps\<close>: the cursor \<open>lastHigh\<close> and the gaps found so far are the loop's
  state. \<open>High intvl + 1\<close> wraps around at \<open>MaxInt64\<close>, as in Go.
\<close>

fun Gaps_loop :: "int64 \<Rightarrow> Interval list \<Rightarrow> Interval list \<Rightarrow> int64 \<times> Interval list" where
  "Gaps_loop lastHigh gaps [] = (lastHigh, gaps)"
| "Gaps_loop lastHigh gaps (intvl # rest) =
     Gaps_loop (High intvl + 1)
       (if lastHigh <s Low intvl
        then gaps @ [\<lparr>Low = lastHigh, High = Low intvl - 1\<rparr>]
        else gaps)
       rest"

definition Gaps_of :: "int64 \<Rightarrow> int64 \<Rightarrow> Interval list \<Rightarrow> Interval list" where
  "Gaps_of minLow maxHigh xs =
     (case Gaps_loop minLow [] xs of
        (lastHigh, gaps) \<Rightarrow>
          if lastHigh <s maxHigh then gaps @ [\<lparr>Low = lastHigh, High = maxHigh\<rparr>] else gaps)"

definition Gaps :: "(Interval list \<Rightarrow> Interval list) \<Rightarrow> intervals \<Rightarrow> Interval list \<times> intervals" where
  "Gaps srt intvls =
     (let s = Sort srt intvls in (Gaps_of (MinLow s) (MaxHigh s) (Intervals s), s))"

text \<open>
  The body of the loop of \<^verbatim>\<open>Overlapped\<close> at index \<open>i\<close>: the state is the envelope
  \<open>(lastMinLow, lastMaxHigh)\<close> and the list of overlaps emitted so far.
\<close>

definition Overlapped_body :: "nat \<Rightarrow> Interval \<Rightarrow> int64 \<times> int64 \<times> Interval list \<Rightarrow> int64 \<times> int64 \<times> Interval list" where
  "Overlapped_body i intvl st =
     (case st of (lastMinLow, lastMaxHigh, list) \<Rightarrow>
        let list' =
              (if i > 0 then
                 (let lowInBetween =
                        (inBetweenInclusive lastMinLow (Low intvl) (High intvl)
                         \<or> inBetweenInclusive (Low intvl) lastMinLow lastMaxHigh);
                      highInBetween =
                        (inBetweenInclusive lastMaxHigh (Low intvl) (High intvl)
                         \<or> inBetweenInclusive (High intvl) lastMinLow lastMaxHigh)
                  in if lowInBetween \<or> highInBetween
                     then list @ [\<lparr>Low = max_i (Low intvl) lastMinLow,
                                   High = min_i (High intvl) lastMaxHigh\<rparr>]
                     else list)
               else list)
        in (if Low intvl <s lastMinLow then Low intvl else lastMinLow,
            if lastMaxHigh <s High intvl then High intvl else lastMaxHigh,
            list'))"

fun Overlapped_loop :: "nat \<Rightarrow> int64 \<times> int64 \<times> Interval list \<Rightarrow> Interval list \<Rightarrow> int64 \<times> int64 \<times> Interval list" where
  "Overlapped_loop i st [] = st"
| "Overlapped_loop i st (intvl # rest) = Overlapped_loop (Suc i) (Overlapped_body i intvl st) rest"

definition Overlapped_of :: "Interval list \<Rightarrow> Interval list" where
  "Overlapped_of xs = snd (snd (Overlapped_loop 0 (MaxInt64, MinInt64, []) xs))"

definition Overlapped :: "(Interval list \<Rightarrow> Interval list) \<Rightarrow> intervals \<Rightarrow> Interval list \<times> intervals" where
  "Overlapped srt intvls = (let s = Sort srt intvls in (Overlapped_of (Intervals s), s))"

section \<open>Rendering\<close>

text \<open>
  Go strings are byte sequences and the source file is UTF-8, so a \<open>string\<close> here is
  the list of the bytes. The symbols of \<^verbatim>\<open>Print\<close> are three bytes each: the empty
  symbol is U+25CC, the full symbol U+25CE, the overlap symbol U+25CF, the separator
  U+2551, the bullet of the headings U+2022 and the frame of the graph U+2560 and U+2563.
\<close>

definition emptySymbol :: string where
  "emptySymbol = [CHR 0xE2, CHR 0x97, CHR 0x8C]"

definition fullSymbol :: string where
  "fullSymbol = [CHR 0xE2, CHR 0x97, CHR 0x8E]"

definition overlapSymbol :: string where
  "overlapSymbol = [CHR 0xE2, CHR 0x97, CHR 0x8F]"

definition separator :: string where
  "separator = [CHR 0xE2, CHR 0x95, CHR 0x91]"

definition bullet :: string where
  "bullet = [CHR 0xE2, CHR 0x80, CHR 0xA2]"

definition frameLeft :: string where
  "frameLeft = [CHR 0xE2, CHR 0x95, CHR 0xA0]"

definition frameRight :: string where
  "frameRight = [CHR 0xE2, CHR 0x95, CHR 0xA3]"

text \<open>
  \<^verbatim>\<open>fmt.Sprintf\<close> belongs to the standard library: \<^verbatim>\<open>%d\<close> and \<^verbatim>\<open>%v\<close> print an
  \<^verbatim>\<open>int\<close> in decimal, with a minus sign when it is negative.
\<close>

definition digit :: "nat \<Rightarrow> char" where
  "digit n = ''0123456789'' ! n"

fun digits :: "nat \<Rightarrow> string" where
  "digits n = (if n < 10 then [digit n] else digits (n div 10) @ [digit (n mod 10)])"

declare digits.simps [simp del]

definition fmt_d :: "int64 \<Rightarrow> string" where
  "fmt_d v = (if sint v < 0 then CHR ''-'' # digits (nat (- sint v)) else digits (nat (sint v)))"

text \<open>\<^verbatim>\<open>fmt.Sprintf("[%d,%d]", x.Low, x.High)\<close>\<close>

definition fmt_interval :: "Interval \<Rightarrow> string" where
  "fmt_interval x = ''['' @ fmt_d (Low x) @ '','' @ fmt_d (High x) @ '']''"

fun isAnOverlap :: "int64 \<Rightarrow> Interval list \<Rightarrow> bool" where
  "isAnOverlap v [] = False"
| "isAnOverlap v (ovrlp # rest) =
     (if inBetweenInclusive v (Low ovrlp) (High ovrlp) then True else isAnOverlap v rest)"

text \<open>
  The loops that write the overlaps and the gaps:
  \<^verbatim>\<open>for i, x := range xs { if i != 0 { text += ", " }; text += Sprintf("[%d,%d]", ...) }\<close>
\<close>

fun Print_list_loop :: "nat \<Rightarrow> string \<Rightarrow> Interval list \<Rightarrow> string" where
  "Print_list_loop i text [] = text"
| "Print_list_loop i text (x # rest) =
     Print_list_loop (Suc i) ((if i \<noteq> 0 then text @ '', '' else text) @ fmt_interval x) rest"

text \<open>
  The first inner loop, \<^verbatim>\<open>for i := index; i < intvl.Low; i++\<close>, writes the empty units in
  front of an interval. Its state is \<open>(index, graph, numSeparators)\<close>. Go's \<^verbatim>\<open>%\<close>
  truncates towards zero: it is \<open>smod\<close> on the signed value.
\<close>

function Print_empty_loop :: "int64 \<Rightarrow> int64 \<Rightarrow> int64 \<times> string \<times> int64 \<Rightarrow> int64 \<times> string \<times> int64" where
  "Print_empty_loop low i (index, graph, numSeparators) =
     (if i <s low
      then (if sint (index + 1) smod 10 = 0
            then Print_empty_loop low (i + 1)
                   (index + 1, graph @ emptySymbol @ separator, numSeparators + 1)
            else Print_empty_loop low (i + 1) (index + 1, graph @ emptySymbol, numSeparators))
      else (index, graph, numSeparators))"
  by pat_completeness auto
termination
proof (relation "measure (\<lambda>(low, i, st). nat (sint low - sint i))")
  fix low i :: int64
  assume "i <s low"
  then have lt: "sint i < sint low"
    by (simp add: word_sless_alt)
  then have "sint (i + 1) = sint i + 1"
    using sint_lt [of low] sint_ge [of i]
    by (simp add: sint_word_ariths signed_take_bit_int_eq_self)
  with lt have "nat (sint low - sint (i + 1)) < nat (sint low - sint i)"
    by simp
  then show "((low, i + 1, index + 1, graph @ emptySymbol @ separator, numSeparators + 1),
              (low, i, index, graph, numSeparators))
             \<in> measure (\<lambda>(low, i, st). nat (sint low - sint i))"
       and "((low, i + 1, index + 1, graph @ emptySymbol, numSeparators),
              (low, i, index, graph, numSeparators))
             \<in> measure (\<lambda>(low, i, st). nat (sint low - sint i))"
    for index :: int64 and graph :: string and numSeparators :: int64
    by simp_all
qed simp

declare Print_empty_loop.simps [simp del]

text \<open>
  The second inner loop, \<^verbatim>\<open>for i := index; i <= intvl.High; i++\<close>, writes the units of
  the interval. When \<open>High\<close> is \<open>MaxInt64\<close> the test never fails and the loop does not
  end: it is a partial function, \<open>None\<close> where it does not return.
\<close>

definition Print_full_body :: "Interval list \<Rightarrow> int64 \<times> string \<times> int64 \<Rightarrow> int64 \<times> string \<times> int64" where
  "Print_full_body overlapped st =
     (case st of (index, graph, numSeparators) \<Rightarrow>
        let graph' = graph @ (if isAnOverlap index overlapped then overlapSymbol else fullSymbol)
        in if sint (index + 1) smod 10 = 0
           then (index + 1, graph' @ separator, numSeparators + 1)
           else (index + 1, graph', numSeparators))"

partial_function (option) Print_full_loop :: "Interval list \<Rightarrow> int64 \<Rightarrow> int64 \<Rightarrow> int64 \<times> string \<times> int64 \<Rightarrow> (int64 \<times> string \<times> int64) option" where
  "Print_full_loop overlapped high i st =
     (if i \<le>s high
      then Print_full_loop overlapped high (i + 1) (Print_full_body overlapped st)
      else Some st)"

declare Print_full_loop.simps [code]

text \<open>
  The loop over the intervals. Its state is \<open>(intervalText, index, graph, numSeparators)\<close>;
  \<open>i\<close> is the position in the slice.
\<close>

fun Print_loop :: "Interval list \<Rightarrow> nat \<Rightarrow> string \<times> int64 \<times> string \<times> int64 \<Rightarrow> Interval list \<Rightarrow> (string \<times> int64 \<times> string \<times> int64) option" where
  "Print_loop overlapped i st [] = Some st"
| "Print_loop overlapped i (intervalText, index, graph, numSeparators) (intvl # rest) =
     (case Print_full_loop overlapped (High intvl)
             (fst (Print_empty_loop (Low intvl) index (index, graph, numSeparators)))
             (Print_empty_loop (Low intvl) index (index, graph, numSeparators)) of
        None \<Rightarrow> None
      | Some (index', graph', numSeparators') \<Rightarrow>
          Print_loop overlapped (Suc i)
            ((if i \<noteq> 0 then intervalText @ '', '' else intervalText) @ fmt_interval intvl,
             index', graph', numSeparators')
            rest)"

text \<open>
  The two loops after it, \<^verbatim>\<open>for i := index; i < intvls.MaxHigh; i++ { graph += emptySymbol }\<close>
  and \<^verbatim>\<open>for i := intvls.MinLow; i < intvls.MaxHigh+numSeparators-2; i++ { axisLegend += " " }\<close>,
  append one symbol per round.
\<close>

function Print_pad_loop :: "int64 \<Rightarrow> string \<Rightarrow> int64 \<Rightarrow> string \<Rightarrow> string" where
  "Print_pad_loop bound symbol i line =
     (if i <s bound then Print_pad_loop bound symbol (i + 1) (line @ symbol) else line)"
  by pat_completeness auto
termination
proof (relation "measure (\<lambda>(bound, symbol, i, line). nat (sint bound - sint i))")
  fix bound i :: int64 and symbol line :: string
  assume "i <s bound"
  then have lt: "sint i < sint bound"
    by (simp add: word_sless_alt)
  then have "sint (i + 1) = sint i + 1"
    using sint_lt [of bound] sint_ge [of i]
    by (simp add: sint_word_ariths signed_take_bit_int_eq_self)
  with lt show "((bound, symbol, i + 1, line @ symbol), (bound, symbol, i, line))
                \<in> measure (\<lambda>(bound, symbol, i, line). nat (sint bound - sint i))"
    by simp
qed simp

declare Print_pad_loop.simps [simp del]

definition introText :: "intervals \<Rightarrow> string" where
  "introText intvls =
     ''\<newline>==================================\<newline> SUMMARY (minLow='' @ fmt_d (MinLow intvls)
     @ '', maxHigh='' @ fmt_d (MaxHigh intvls)
     @ '')\<newline>==================================''"

definition legend :: string where
  "legend =
     ''\<newline> '' @ bullet @ '' Legend: '' @ emptySymbol @ '' (empty), '' @ fullSymbol
     @ '' (full), '' @ overlapSymbol @ '' (overlap)''"

definition axisLegend :: "intervals \<Rightarrow> int64 \<Rightarrow> string" where
  "axisLegend intvls numSeparators =
     Print_pad_loop (MaxHigh intvls + numSeparators - 2) '' '' (MinLow intvls)
       ('' '' @ fmt_d (MinLow intvls))
     @ fmt_d (MaxHigh intvls)"

definition Print :: "(Interval list \<Rightarrow> Interval list) \<Rightarrow> intervals \<Rightarrow> (string \<times> intervals) option" where
  "Print srt intvls =
     (let s = Sort srt intvls;
          overlapped = fst (Overlapped srt s);
          s1 = snd (Overlapped srt s);
          overlapText = Print_list_loop 0 (''\<newline> '' @ bullet @ '' Overlapped: '') overlapped
      in case Print_loop overlapped 0 (''\<newline> '' @ bullet @ '' Intervals: '', MinLow s1, [], 0)
                (Intervals s1) of
           None \<Rightarrow> None
         | Some (intervalText, index, graph, numSeparators) \<Rightarrow>
             let gaps = fst (Gaps srt s1);
                 s2 = snd (Gaps srt s1);
                 gapsText = Print_list_loop 0 (''\<newline> '' @ bullet @ '' Gaps: '') gaps;
                 graph' = Print_pad_loop (MaxHigh s2) emptySymbol index graph;
                 graphText = ''\<newline>\<newline>'' @ axisLegend s2 numSeparators @ ''\<newline>''
                             @ frameLeft @ graph' @ frameRight
             in Some (''\<newline>'' @ introText s @ legend @ intervalText @ gapsText
                      @ overlapText @ graphText @ ''\<newline>'', s2))"

section \<open>Reachable collections\<close>

text \<open>
  The struct is not exported: a caller gets a collection from \<^verbatim>\<open>NewIntervals\<close> and
  changes it through the methods only. \<open>reachable srt c\<close> says that \<open>c\<close> is such a
  collection.
\<close>

inductive reachable :: "(Interval list \<Rightarrow> Interval list) \<Rightarrow> intervals \<Rightarrow> bool"
  for srt :: "Interval list \<Rightarrow> Interval list" where
  reach_New: "reachable srt (NewIntervals minLow maxHigh)"
| reach_Add: "reachable srt c \<Longrightarrow> reachable srt (Add c itvl)"
| reach_Find: "reachable srt c \<Longrightarrow> reachable srt (snd (FindIntervalsForValue c v))"
| reach_Sort: "reachable srt c \<Longrightarrow> reachable srt (Sort srt c)"
| reach_Gaps: "reachable srt c \<Longrightarrow> reachable srt (snd (Gaps srt c))"
| reach_Overlapped: "reachable srt c \<Longrightarrow> reachable srt (snd (Overlapped srt c))"
| reach_Print: "reachable srt c \<Longrightarrow> Print srt c = Some (out, c') \<Longrightarrow> reachable srt c'"

text \<open>An interval is well-formed when its low bound does not exceed its high bound.\<close>

definition wellFormed :: "Interval \<Rightarrow> bool" where
  "wellFormed x = (Low x \<le>s High x)"

text \<open>The two collections that the spec works through.\<close>

definition scenario :: intervals where
  "scenario =
     Add (Add (Add (NewIntervals 0 40) \<lparr>Low = 5, High = 10\<rparr>) \<lparr>Low = 8, High = 15\<rparr>)
       \<lparr>Low = 30, High = 35\<rparr>"

definition nesting :: intervals where
  "nesting = Add (Add (NewIntervals 0 20) \<lparr>Low = 0, High = 10\<rparr>) \<lparr>Low = 2, High = 3\<rparr>"

section \<open>Coverage of the domain\<close>

text \<open>
  \<open>covers x v\<close>: the point \<open>v\<close> lies in the closed range of \<open>x\<close>. \<open>coverage v xs\<close> counts
  the intervals of \<open>xs\<close> that cover \<open>v\<close>. Two intervals overlap when they share a point
  (nesting included); \<open>apart xs\<close> says that no two entries of \<open>xs\<close> do.
\<close>

definition covers :: "Interval \<Rightarrow> int64 \<Rightarrow> bool" where
  "covers x v = inBetweenInclusive v (Low x) (High x)"

definition coverage :: "int64 \<Rightarrow> Interval list \<Rightarrow> nat" where
  "coverage v xs = length (filter (\<lambda>x. covers x v) xs)"

definition overlapping :: "Interval \<Rightarrow> Interval \<Rightarrow> bool" where
  "overlapping a b = (max_i (Low a) (Low b) \<le>s min_i (High a) (High b))"

definition apart :: "Interval list \<Rightarrow> bool" where
  "apart xs = (\<forall>i<length xs. \<forall>j<length xs. i \<noteq> j \<longrightarrow> \<not> overlapping (xs ! i) (xs ! j))"

text \<open>The cursor \<^verbatim>\<open>lastHigh\<close> as the walk of \<^verbatim>\<open>Gaps\<close> leaves it.\<close>

definition Gaps_cursor :: "int64 \<Rightarrow> Interval list \<Rightarrow> int64" where
  "Gaps_cursor minLow xs = fst (Gaps_loop minLow [] xs)"

text \<open>
  A sorted run of well-formed intervals, each ending before the next begins and none
  ending at \<open>MaxInt64\<close>.
\<close>

definition chain :: "Interval list \<Rightarrow> bool" where
  "chain ys = (sorted_wrt (\<lambda>a b. High a <s Low b) ys
     \<and> (\<forall>y \<in> set ys. wellFormed y \<and> High y \<noteq> MaxInt64))"

text \<open>Two more collections: one with an inverted interval, one that the gaps tile.\<close>

definition inverted :: intervals where
  "inverted = Add (NewIntervals 0 40) \<lparr>Low = 10, High = 5\<rparr>"

definition tiled :: intervals where
  "tiled = Add (Add (NewIntervals 0 40) \<lparr>Low = 20, High = 29\<rparr>) \<lparr>Low = 5, High = 10\<rparr>"

section \<open>The rendered text\<close>

text \<open>
  \<open>joined xs\<close> is the list of the intervals as text, each as \<^verbatim>\<open>[low,high]\<close>, with a comma
  and a space between two of them.
\<close>

fun joined :: "Interval list \<Rightarrow> string" where
  "joined [] = []"
| "joined [x] = fmt_interval x"
| "joined (x # y # xs) = fmt_interval x @ '', '' @ joined (y # xs)"

text \<open>
  The graph that \<^verbatim>\<open>Print\<close> draws, with the padding at its end, and the number of
  separators in it: the loop over the intervals without the text it writes beside.
\<close>

definition Print_graph :: "Interval list \<Rightarrow> int64 \<Rightarrow> int64 \<Rightarrow> Interval list \<Rightarrow> (string \<times> int64) option" where
  "Print_graph overlapped minLow maxHigh xs =
     (case Print_loop overlapped 0 ([], minLow, [], 0) xs of
        None \<Rightarrow> None
      | Some (intervalText, index, graph, numSeparators) \<Rightarrow>
          Some (Print_pad_loop maxHigh emptySymbol index graph, numSeparators))"

text \<open>A collection built by adding the intervals of a list in their order.\<close>

definition build :: "int64 \<Rightarrow> int64 \<Rightarrow> Interval list \<Rightarrow> intervals" where
  "build minLow maxHigh xs = foldl Add (NewIntervals minLow maxHigh) xs"

text \<open>
  \<open>in_order ps s\<close>: the parts \<open>ps\<close> occur in the text \<open>s\<close> one after the other, in the
  order of the list and without sharing a character. \<open>scan\<close> decides it from left to
  right, taking each part at its first occurrence after the part before.
\<close>

fun in_order :: "string list \<Rightarrow> string \<Rightarrow> bool" where
  "in_order [] s = True"
| "in_order (p # ps) s = (\<exists>u v. s = u @ p @ v \<and> in_order ps v)"

fun after_first :: "string \<Rightarrow> string \<Rightarrow> string option" where
  "after_first p [] = (if p = [] then Some [] else None)"
| "after_first p (c # s) =
     (if take (length p) (c # s) = p then Some (drop (length p) (c # s)) else after_first p s)"

fun scan :: "string list \<Rightarrow> string \<Rightarrow> bool" where
  "scan [] s = True"
| "scan (p # ps) s = (case after_first p s of None \<Rightarrow> False | Some v \<Rightarrow> scan ps v)"

text \<open>
  A collection with one interval, the text that \<^verbatim>\<open>Print\<close> returns for it, and lists of
  intervals in two orders, without and with a shared low bound.
\<close>

definition small :: intervals where
  "small = Add (NewIntervals 0 12) \<lparr>Low = 2, High = 3\<rparr>"

definition small_graph :: string where
  "small_graph =
     emptySymbol @ emptySymbol @ fullSymbol @ fullSymbol @ emptySymbol @ emptySymbol
     @ emptySymbol @ emptySymbol @ emptySymbol @ emptySymbol @ emptySymbol @ emptySymbol"

definition small_text :: string where
  "small_text =
     ''\<newline>'' @ introText small @ legend
     @ (''\<newline> '' @ bullet @ '' Intervals: [2,3]'')
     @ (''\<newline> '' @ bullet @ '' Gaps: [0,1], [4,12]'')
     @ (''\<newline> '' @ bullet @ '' Overlapped: '')
     @ ''\<newline>\<newline>'' @ '' 0          12''
     @ ''\<newline>'' @ frameLeft @ small_graph @ frameRight @ ''\<newline>''"

definition shuffled :: "Interval list" where
  "shuffled = [\<lparr>Low = 8, High = 11\<rparr>, \<lparr>Low = 2, High = 3\<rparr>]"

definition ordered :: "Interval list" where
  "ordered = [\<lparr>Low = 2, High = 3\<rparr>, \<lparr>Low = 8, High = 11\<rparr>]"

definition tied :: "Interval list" where
  "tied = [\<lparr>Low = 1, High = 5\<rparr>, \<lparr>Low = 1, High = 9\<rparr>]"

definition tied_swapped :: "Interval list" where
  "tied_swapped = [\<lparr>Low = 1, High = 9\<rparr>, \<lparr>Low = 1, High = 5\<rparr>]"

section \<open>Signed comparison and the sort\<close>

lemmas sint_cmp = word_sle_eq word_sless_alt

lemma sorted_ByLow_iff: "sorted_ByLow xs = sorted_wrt (\<lambda>a b. Low a \<le>s Low b) xs"
  unfolding sorted_ByLow_def Less_def
  by (rule arg_cong [where f = "\<lambda>P. sorted_wrt P xs"]) (auto simp: fun_eq_iff sint_cmp)

lemma sorted_ByLow_map: "sorted_ByLow xs = sorted (map (\<lambda>x. sint (Low x)) xs)"
  by (simp add: sorted_ByLow_iff sorted_map word_sle_eq)

lemma mset_bubble: "mset (bubble x rs) = add_mset x (mset rs)"
  by (induction rs) auto

lemma set_bubble: "set (bubble x rs) = insert x (set rs)"
  by (induction rs) auto

lemma sorted_bubble:
  "sorted_wrt (\<lambda>a b. \<not> Less a b) rs \<Longrightarrow> sorted_wrt (\<lambda>a b. \<not> Less a b) (bubble x rs)"
  by (induction rs) (auto simp: set_bubble Less_def word_sless_alt)

lemma foldl_bubble:
  "sorted_wrt (\<lambda>a b. \<not> Less a b) rs \<Longrightarrow>
   mset (foldl (\<lambda>rs x. bubble x rs) rs xs) = mset xs + mset rs
   \<and> sorted_wrt (\<lambda>a b. \<not> Less a b) (foldl (\<lambda>rs x. bubble x rs) rs xs)"
  by (induction xs arbitrary: rs) (simp_all add: mset_bubble sorted_bubble)

lemma insertionSort_contract: "sort_contract insertionSort"
  using foldl_bubble [of "[]"]
  by (simp add: sort_contract_def insertionSort_def sorted_ByLow_def sorted_wrt_rev)

text \<open>
  When equal low bounds belong to equal intervals only, the order by low bound leaves
  one arrangement, whatever the sort.
\<close>

lemma sorted_ByLow_unique:
  assumes "sorted_ByLow xs" and "sorted_ByLow ys" and "mset ys = mset xs"
    and "inj_on Low (set xs)"
  shows "ys = xs"
proof -
  let ?f = "\<lambda>x. sint (Low x)"
  have "mset (map ?f ys) = mset (map ?f xs)"
    using assms(3) by simp
  then have "map ?f ys = map ?f xs"
    using assms(1,2) by (metis sorted_ByLow_map properties_for_sort)
  moreover have "set ys = set xs"
    using assms(3) by (rule mset_eq_setD)
  moreover have "inj_on ?f (set xs)"
    using assms(4) by (auto simp: inj_on_def dest: signed_word_eqI)
  ultimately show ?thesis
    by (simp add: inj_on_map_eq_map)
qed

lemma srt_fixes_sorted:
  "sort_contract srt \<Longrightarrow> sorted_ByLow xs \<Longrightarrow> inj_on Low (set xs) \<Longrightarrow> srt xs = xs"
  by (rule sorted_ByLow_unique) (simp_all add: sort_contract_def)

section \<open>The sorted flag\<close>

lemma Sort_Sort: "Sort srt (Sort srt c) = Sort srt c"
  by (simp add: Sort_def)

lemma snd_Gaps: "snd (Gaps srt c) = Sort srt c"
  by (simp add: Gaps_def Let_def)

lemma snd_Overlapped: "snd (Overlapped srt c) = Sort srt c"
  by (simp add: Overlapped_def Let_def)

lemma snd_FindIntervalsForValue: "snd (FindIntervalsForValue c v) = c"
  by (simp add: FindIntervalsForValue_def)

lemma Print_state: "Print srt c = Some (out, c') \<Longrightarrow> c' = Sort srt c"
  by (auto simp: Print_def Let_def snd_Gaps snd_Overlapped Sort_Sort split: option.splits prod.splits)

lemma Sort_Intervals_mset:
  "sort_contract srt \<Longrightarrow> mset (Intervals (Sort srt c)) = mset (Intervals c)"
  by (simp add: Sort_def sort_contract_def)

lemma Sort_inv:
  "sort_contract srt \<Longrightarrow> Sorted c \<longrightarrow> sorted_ByLow (Intervals c) \<Longrightarrow>
   sorted_ByLow (Intervals (Sort srt c))"
  by (simp add: Sort_def sort_contract_def)

lemma reachable_inv:
  assumes "sort_contract srt" and "reachable srt c"
  shows "Sorted c \<longrightarrow> sorted_ByLow (Intervals c)"
  using assms(2)
proof (induction rule: reachable.induct)
  case (reach_New minLow maxHigh)
  show ?case by (simp add: NewIntervals_def)
next
  case (reach_Add c itvl)
  show ?case by (simp add: Add_def)
next
  case (reach_Find c v)
  then show ?case by (simp add: snd_FindIntervalsForValue)
next
  case (reach_Sort c)
  then show ?case using Sort_inv [OF assms(1)] by simp
next
  case (reach_Gaps c)
  then show ?case using Sort_inv [OF assms(1)] by (simp add: snd_Gaps)
next
  case (reach_Overlapped c)
  then show ?case using Sort_inv [OF assms(1)] by (simp add: snd_Overlapped)
next
  case (reach_Print c out c')
  then show ?case using Sort_inv [OF assms(1)] Print_state by blast
qed

section \<open>Membership query\<close>

lemma FindIntervalsForValue_loop_filter:
  "FindIntervalsForValue_loop v matches xs
   = matches @ filter (\<lambda>x. Low x \<le>s v \<and> v \<le>s High x) xs"
  by (induction xs arbitrary: matches) (simp_all add: inBetweenInclusive_def)

text \<open>
  Claim C8. \<^verbatim>\<open>FindIntervalsForValue(value)\<close> returns the intervals of the collection with
  \<open>Low \<le> value \<le> High\<close>, both bounds inclusive, in the order in which the collection
  holds them, and leaves the collection as it is: nothing is sorted. It returns the empty
  list when no interval matches. An interval [3,7] is returned for 3 and for 7, and
  neither for 2 nor for 8.
\<close>

theorem FindIntervalsForValue_inclusive:
  "fst (FindIntervalsForValue c v) = filter (\<lambda>x. Low x \<le>s v \<and> v \<le>s High x) (Intervals c)
   \<and> snd (FindIntervalsForValue c v) = c
   \<and> ((\<forall>x \<in> set (Intervals c). \<not> (Low x \<le>s v \<and> v \<le>s High x))
        \<longrightarrow> fst (FindIntervalsForValue c v) = [])
   \<and> fst (FindIntervalsForValue (Add (NewIntervals minLow maxHigh) \<lparr>Low = 3, High = 7\<rparr>) 3)
       = [\<lparr>Low = 3, High = 7\<rparr>]
   \<and> fst (FindIntervalsForValue (Add (NewIntervals minLow maxHigh) \<lparr>Low = 3, High = 7\<rparr>) 7)
       = [\<lparr>Low = 3, High = 7\<rparr>]
   \<and> fst (FindIntervalsForValue (Add (NewIntervals minLow maxHigh) \<lparr>Low = 3, High = 7\<rparr>) 2) = []
   \<and> fst (FindIntervalsForValue (Add (NewIntervals minLow maxHigh) \<lparr>Low = 3, High = 7\<rparr>) 8) = []"
  by (simp add: FindIntervalsForValue_def FindIntervalsForValue_loop_filter Add_def
      NewIntervals_def sint_cmp filter_empty_conv)

theorem FindIntervalsForValue_inclusive_witness:
  "fst (FindIntervalsForValue
          (Add (Add (NewIntervals 0 40) \<lparr>Low = 3, High = 7\<rparr>) \<lparr>Low = 9, High = 12\<rparr>) 8) = []"
  using FindIntervalsForValue_inclusive
          [of "Add (Add (NewIntervals 0 40) \<lparr>Low = 3, High = 7\<rparr>) \<lparr>Low = 9, High = 12\<rparr>" 8]
  by (simp add: Add_def NewIntervals_def sint_cmp)

section \<open>Overlaps\<close>

lemma Overlapped_of_short: "length xs \<le> 1 \<Longrightarrow> Overlapped_of xs = []"
  by (cases xs) (simp_all add: Overlapped_of_def Overlapped_body_def)

text \<open>
  Claim C9. For a collection that holds no interval or exactly one, \<^verbatim>\<open>Overlapped()\<close> returns
  the empty list, whatever the bounds of the interval and of the domain.
\<close>

theorem Overlapped_short_empty:
  assumes "sort_contract srt" and "length (Intervals c) \<le> 1"
  shows "fst (Overlapped srt c) = []"
proof -
  have "size (mset (Intervals (Sort srt c))) = size (mset (Intervals c))"
    using Sort_Intervals_mset [OF assms(1)] by simp
  then have "length (Intervals (Sort srt c)) \<le> 1"
    using assms(2) by simp
  then show ?thesis
    by (simp add: Overlapped_def Let_def Overlapped_of_short)
qed

theorem Overlapped_short_empty_witness:
  "fst (Overlapped insertionSort (Add (NewIntervals 0 40) \<lparr>Low = 5, High = 10\<rparr>)) = []
   \<and> fst (Overlapped insertionSort (NewIntervals 0 40)) = []"
  using Overlapped_short_empty
          [OF insertionSort_contract, of "Add (NewIntervals 0 40) \<lparr>Low = 5, High = 10\<rparr>"]
    Overlapped_short_empty [OF insertionSort_contract, of "NewIntervals 0 40"]
  by (simp add: Add_def NewIntervals_def)

text \<open>
  One round of the loop keeps the emitted overlaps well-formed, and leaves a well-formed
  envelope behind, provided the envelope it starts from is well-formed once an interval
  has been seen.
\<close>

lemma Overlapped_body_wellFormed:
  assumes "Overlapped_body i x (lo, hi, list) = (lo', hi', list')"
    and "wellFormed x" and "0 < i \<longrightarrow> lo \<le>s hi" and "\<forall>ov \<in> set list. wellFormed ov"
  shows "lo' \<le>s hi' \<and> (\<forall>ov \<in> set list'. wellFormed ov)"
  using assms
  by (auto simp: Overlapped_body_def Let_def inBetweenInclusive_def max_i_def min_i_def
      wellFormed_def sint_cmp split: if_splits)

lemma Overlapped_loop_wellFormed:
  assumes "\<forall>x \<in> set xs. wellFormed x" and "0 < i \<longrightarrow> fst st \<le>s fst (snd st)"
    and "\<forall>ov \<in> set (snd (snd st)). wellFormed ov"
  shows "\<forall>ov \<in> set (snd (snd (Overlapped_loop i st xs))). wellFormed ov"
  using assms
proof (induction xs arbitrary: i st)
  case Nil
  then show ?case by simp
next
  case (Cons x xs)
  obtain lo hi list where st: "st = (lo, hi, list)"
    by (cases st) auto
  obtain lo' hi' list' where body: "Overlapped_body i x (lo, hi, list) = (lo', hi', list')"
    by (cases "Overlapped_body i x (lo, hi, list)") auto
  have "lo' \<le>s hi' \<and> (\<forall>ov \<in> set list'. wellFormed ov)"
    using Overlapped_body_wellFormed [OF body] Cons.prems by (simp add: st)
  then show ?case
    using Cons.IH [of "Suc i" "(lo', hi', list')"] Cons.prems(1) by (simp add: st body)
qed

text \<open>
  Claim C10. When every interval of the collection is well-formed (\<open>Low \<le> High\<close>), every
  interval that \<^verbatim>\<open>Overlapped()\<close> returns is well-formed too: the intersection of the
  current interval with the envelope is never inverted.
\<close>

theorem Overlapped_wellFormed:
  assumes "sort_contract srt" and "\<forall>x \<in> set (Intervals c). Low x \<le>s High x"
  shows "\<forall>ov \<in> set (fst (Overlapped srt c)). Low ov \<le>s High ov"
proof -
  have "set (Intervals (Sort srt c)) = set (Intervals c)"
    using Sort_Intervals_mset [OF assms(1)] by (rule mset_eq_setD)
  then have "\<forall>x \<in> set (Intervals (Sort srt c)). wellFormed x"
    using assms(2) by (simp add: wellFormed_def)
  then have "\<forall>ov \<in> set (Overlapped_of (Intervals (Sort srt c))). wellFormed ov"
    unfolding Overlapped_of_def by (rule Overlapped_loop_wellFormed) simp_all
  then show ?thesis
    by (simp add: Overlapped_def Let_def wellFormed_def)
qed

lemma Overlapped_crossing:
  "fst (Overlapped insertionSort
          (Add (Add (NewIntervals 0 40) \<lparr>Low = 8, High = 15\<rparr>) \<lparr>Low = 5, High = 10\<rparr>))
   = [\<lparr>Low = 8, High = 10\<rparr>]"
  by (simp add: Overlapped_def Sort_def Add_def NewIntervals_def insertionSort_def Less_def
      Overlapped_of_def Overlapped_body_def inBetweenInclusive_def max_i_def min_i_def
      MaxInt64_def MinInt64_def sint_cmp)

theorem Overlapped_wellFormed_witness:
  "fst (Overlapped insertionSort
          (Add (Add (NewIntervals 0 40) \<lparr>Low = 8, High = 15\<rparr>) \<lparr>Low = 5, High = 10\<rparr>))
   = [\<lparr>Low = 8, High = 10\<rparr>]
   \<and> Low \<lparr>Low = 8, High = 10\<rparr> \<le>s High \<lparr>Low = 8, High = 10 :: int64\<rparr>"
  using Overlapped_wellFormed [OF insertionSort_contract,
          of "Add (Add (NewIntervals 0 40) \<lparr>Low = 8, High = 15\<rparr>) \<lparr>Low = 5, High = 10\<rparr>"]
  by (simp add: Overlapped_crossing)

section \<open>The scenarios of the spec\<close>

lemma Sort_unsorted:
  "sort_contract srt \<Longrightarrow> \<not> Sorted c \<Longrightarrow> sorted_ByLow (Intervals c) \<Longrightarrow>
   inj_on Low (set (Intervals c)) \<Longrightarrow> Sort srt c = c\<lparr>Sorted := True\<rparr>"
  by (simp add: Sort_def srt_fixes_sorted)

lemma Sort_scenario:
  assumes "sort_contract srt"
  shows "Sort srt scenario = scenario\<lparr>Sorted := True\<rparr>"
  by (rule Sort_unsorted [OF assms])
    (simp_all add: scenario_def Add_def NewIntervals_def sorted_ByLow_iff sint_cmp)

lemma Sort_nesting:
  assumes "sort_contract srt"
  shows "Sort srt nesting = nesting\<lparr>Sorted := True\<rparr>"
  by (rule Sort_unsorted [OF assms])
    (simp_all add: nesting_def Add_def NewIntervals_def sorted_ByLow_iff sint_cmp)

text \<open>
  Claim C2. The collection with domain [0,40] and the intervals [5,10], [8,15], [30,35], added
  in this order: the sorted order is [5,10], [8,15], [30,35]; \<^verbatim>\<open>Gaps()\<close> returns
  [0,4], [16,29], [36,40] in this order; \<^verbatim>\<open>Overlapped()\<close> returns [8,10] alone, which is
  emitted in the round of [8,15] against the envelope [5,10], and the round of [30,35]
  against the envelope [5,15] emits nothing.
\<close>

theorem scenario_end_to_end:
  assumes "sort_contract srt"
  shows "Intervals (Sort srt scenario)
           = [\<lparr>Low = 5, High = 10\<rparr>, \<lparr>Low = 8, High = 15\<rparr>, \<lparr>Low = 30, High = 35\<rparr>]
    \<and> fst (Gaps srt scenario)
           = [\<lparr>Low = 0, High = 4\<rparr>, \<lparr>Low = 16, High = 29\<rparr>, \<lparr>Low = 36, High = 40\<rparr>]
    \<and> fst (Overlapped srt scenario) = [\<lparr>Low = 8, High = 10\<rparr>]
    \<and> Overlapped_body 0 \<lparr>Low = 5, High = 10\<rparr> (MaxInt64, MinInt64, []) = (5, 10, [])
    \<and> Overlapped_body 1 \<lparr>Low = 8, High = 15\<rparr> (5, 10, []) = (5, 15, [\<lparr>Low = 8, High = 10\<rparr>])
    \<and> Overlapped_body 2 \<lparr>Low = 30, High = 35\<rparr> (5, 15, [\<lparr>Low = 8, High = 10\<rparr>])
        = (5, 35, [\<lparr>Low = 8, High = 10\<rparr>])"
proof -
  have items: "Intervals (scenario\<lparr>Sorted := True\<rparr>)
      = [\<lparr>Low = 5, High = 10\<rparr>, \<lparr>Low = 8, High = 15\<rparr>, \<lparr>Low = 30, High = 35\<rparr>]"
    and dom: "MinLow (scenario\<lparr>Sorted := True\<rparr>) = 0" "MaxHigh (scenario\<lparr>Sorted := True\<rparr>) = 40"
    by (simp_all add: scenario_def Add_def NewIntervals_def)
  have b0: "Overlapped_body 0 \<lparr>Low = 5, High = 10\<rparr> (MaxInt64, MinInt64, []) = (5, 10, [])"
    by (simp add: Overlapped_body_def MaxInt64_def MinInt64_def sint_cmp)
  have b1: "Overlapped_body 1 \<lparr>Low = 8, High = 15\<rparr> (5, 10, []) = (5, 15, [\<lparr>Low = 8, High = 10\<rparr>])"
    by (simp add: Overlapped_body_def inBetweenInclusive_def max_i_def min_i_def sint_cmp)
  have b2: "Overlapped_body 2 \<lparr>Low = 30, High = 35\<rparr> (5, 15, [\<lparr>Low = 8, High = 10\<rparr>])
        = (5, 35, [\<lparr>Low = 8, High = 10\<rparr>])"
    by (simp add: Overlapped_body_def inBetweenInclusive_def max_i_def min_i_def sint_cmp)
  have g: "fst (Gaps srt scenario)
           = [\<lparr>Low = 0, High = 4\<rparr>, \<lparr>Low = 16, High = 29\<rparr>, \<lparr>Low = 36, High = 40\<rparr>]"
    by (simp add: Gaps_def Let_def Sort_scenario [OF assms] Gaps_of_def)
      (simp add: scenario_def Add_def NewIntervals_def sint_cmp)
  have "Overlapped_loop 0 (MaxInt64, MinInt64, [])
          [\<lparr>Low = 5, High = 10\<rparr>, \<lparr>Low = 8, High = 15\<rparr>, \<lparr>Low = 30, High = 35\<rparr>]
        = (5, 35, [\<lparr>Low = 8, High = 10\<rparr>])"
    using b0 b1 b2 by (simp add: numeral_2_eq_2)
  then have o: "fst (Overlapped srt scenario) = [\<lparr>Low = 8, High = 10\<rparr>]"
    by (simp add: Overlapped_def Let_def Sort_scenario [OF assms] items Overlapped_of_def)
  show ?thesis
    using g o b0 b1 b2 by (simp add: Sort_scenario [OF assms] items)
qed

theorem scenario_end_to_end_witness:
  "fst (Gaps insertionSort scenario)
     = [\<lparr>Low = 0, High = 4\<rparr>, \<lparr>Low = 16, High = 29\<rparr>, \<lparr>Low = 36, High = 40\<rparr>]
   \<and> fst (Overlapped insertionSort scenario) = [\<lparr>Low = 8, High = 10\<rparr>]"
  using scenario_end_to_end [OF insertionSort_contract] by simp

text \<open>
  Claim C3. The collection with domain [0,20] and the intervals [0,10] and [2,3], added in this
  order: \<^verbatim>\<open>Gaps()\<close> returns a gap whose low bound is 4, because the cursor is set to the
  high bound plus one after every interval: it is 11 after [0,10] and falls back to 4
  after [2,3].
\<close>

theorem Gaps_nesting:
  assumes "sort_contract srt"
  shows "fst (Gaps srt nesting) = [\<lparr>Low = 4, High = 20\<rparr>]
    \<and> Gaps_loop 0 [] [\<lparr>Low = 0, High = 10\<rparr>] = (11, [])
    \<and> Gaps_loop 0 [] [\<lparr>Low = 0, High = 10\<rparr>, \<lparr>Low = 2, High = 3\<rparr>] = (4, [])"
  by (simp add: Gaps_def Let_def Sort_nesting [OF assms] Gaps_of_def sint_cmp)
    (simp add: nesting_def Add_def NewIntervals_def sint_cmp)

theorem Gaps_nesting_witness:
  "fst (Gaps insertionSort nesting) = [\<lparr>Low = 4, High = 20\<rparr>]"
  using Gaps_nesting [OF insertionSort_contract] by simp

section \<open>Sorting\<close>

text \<open>
  Claim C6. In every collection that the methods can produce, \<^verbatim>\<open>Sorted\<close> being true implies
  that the items are in ascending order of \<^verbatim>\<open>Low\<close>. The flag starts false; \<^verbatim>\<open>Add\<close> appends
  and sets it to false; \<^verbatim>\<open>Sort\<close>, and with it \<^verbatim>\<open>Gaps\<close>, \<^verbatim>\<open>Overlapped\<close> and \<^verbatim>\<open>Print\<close>, leave
  it true; \<^verbatim>\<open>FindIntervalsForValue\<close> does not change it.
\<close>

theorem Sorted_invariant:
  assumes "sort_contract srt" and "reachable srt c"
  shows "(Sorted c \<longrightarrow> sorted_wrt (\<lambda>a b. Low a \<le>s Low b) (Intervals c))
    \<and> \<not> Sorted (NewIntervals minLow maxHigh)
    \<and> Intervals (Add c x) = Intervals c @ [x] \<and> \<not> Sorted (Add c x)
    \<and> Sorted (Sort srt c)
    \<and> Sorted (snd (Gaps srt c))
    \<and> Sorted (snd (Overlapped srt c))
    \<and> (\<forall>out c'. Print srt c = Some (out, c') \<longrightarrow> Sorted c')
    \<and> Sorted (snd (FindIntervalsForValue c v)) = Sorted c"
proof -
  have "Sorted c \<longrightarrow> sorted_wrt (\<lambda>a b. Low a \<le>s Low b) (Intervals c)"
    using reachable_inv [OF assms] by (simp add: sorted_ByLow_iff)
  moreover have "Sorted (Sort srt c)"
    by (simp add: Sort_def)
  moreover have "\<forall>out c'. Print srt c = Some (out, c') \<longrightarrow> Sorted c'"
    using Print_state [of srt c] \<open>Sorted (Sort srt c)\<close> by blast
  ultimately show ?thesis
    by (simp add: snd_Gaps snd_Overlapped snd_FindIntervalsForValue Add_def NewIntervals_def)
qed

theorem Sorted_invariant_witness:
  "Sorted (Sort insertionSort (Add (Add (NewIntervals 0 40) \<lparr>Low = 8, High = 15\<rparr>) \<lparr>Low = 5, High = 10\<rparr>))
   \<and> sorted_wrt (\<lambda>a b. Low a \<le>s Low b)
        (Intervals (Sort insertionSort (Add (Add (NewIntervals 0 40) \<lparr>Low = 8, High = 15\<rparr>) \<lparr>Low = 5, High = 10\<rparr>)))"
  using Sorted_invariant [OF insertionSort_contract,
      of "Sort insertionSort (Add (Add (NewIntervals 0 40) \<lparr>Low = 8, High = 15\<rparr>) \<lparr>Low = 5, High = 10\<rparr>)",
      THEN conjunct1]
  by (simp add: reachable.intros) (simp add: Sort_def)

text \<open>
  Claim C7. For every non-empty collection, \<^verbatim>\<open>Sort\<close> called twice leaves the same sequence
  of items as \<^verbatim>\<open>Sort\<close> called once, and after \<^verbatim>\<open>Sort\<close> the items are in ascending order of
  \<^verbatim>\<open>Low\<close>. (The proof does not use that the collection is non-empty.)
\<close>

theorem Sort_idempotent:
  assumes "sort_contract srt" and "reachable srt c" and "Intervals c \<noteq> []"
  shows "Intervals (Sort srt (Sort srt c)) = Intervals (Sort srt c)
    \<and> sorted_wrt (\<lambda>a b. Low a \<le>s Low b) (Intervals (Sort srt c))"
  using Sort_inv [OF assms(1) reachable_inv [OF assms(1,2)]]
  by (simp add: Sort_Sort sorted_ByLow_iff)

lemma insertionSort_eval:
  "insertionSort [\<lparr>Low = 8, High = 15\<rparr>, \<lparr>Low = 5, High = 10\<rparr>] = [\<lparr>Low = 5, High = 10\<rparr>, \<lparr>Low = 8, High = 15\<rparr>]"
  by (simp add: insertionSort_def Less_def sint_cmp)

theorem Sort_idempotent_witness:
  "Intervals (Sort insertionSort (Sort insertionSort
       (Add (Add (NewIntervals 0 40) \<lparr>Low = 8, High = 15\<rparr>) \<lparr>Low = 5, High = 10\<rparr>)))
     = [\<lparr>Low = 5, High = 10\<rparr>, \<lparr>Low = 8, High = 15\<rparr>]"
  using Sort_idempotent [OF insertionSort_contract,
      of "Add (Add (NewIntervals 0 40) \<lparr>Low = 8, High = 15\<rparr>) \<lparr>Low = 5, High = 10\<rparr>"]
  by (simp add: reachable.intros) (simp add: Add_def NewIntervals_def Sort_def insertionSort_eval)

section \<open>Gaps and the domain\<close>

lemma sint_MaxInt64: "sint MaxInt64 = 9223372036854775807"
  by (simp add: MaxInt64_def)

lemma sint_le_MaxInt64: "sint (a :: int64) \<le> 9223372036854775807"
  using sint_lt [of a] by simp

lemma sint_succ: "(a :: int64) \<noteq> MaxInt64 \<Longrightarrow> sint (a + 1) = sint a + 1"
proof -
  assume "a \<noteq> MaxInt64"
  then have "sint a \<noteq> sint MaxInt64"
    by (auto dest: signed_word_eqI)
  then have "sint a < 9223372036854775807"
    using sint_le_MaxInt64 [of a] by (simp add: sint_MaxInt64)
  then show ?thesis
    using sint_ge [of a] by (simp add: sint_word_ariths signed_take_bit_int_eq_self)
qed

lemma sint_pred: "sint (b :: int64) < sint (a :: int64) \<Longrightarrow> sint (a - 1) = sint a - 1"
  using sint_lt [of a] sint_ge [of b]
  by (simp add: sint_word_ariths signed_take_bit_int_eq_self)

lemma overlapping_iff: "overlapping a b = (\<exists>v. covers a v \<and> covers b v)"
proof
  assume "overlapping a b"
  then have "covers a (max_i (Low a) (Low b)) \<and> covers b (max_i (Low a) (Low b))"
    by (auto simp: overlapping_def covers_def inBetweenInclusive_def max_i_def min_i_def sint_cmp
        split: if_splits)
  then show "\<exists>v. covers a v \<and> covers b v" ..
next
  assume "\<exists>v. covers a v \<and> covers b v"
  then show "overlapping a b"
    by (auto simp: overlapping_def covers_def inBetweenInclusive_def max_i_def min_i_def sint_cmp)
qed

lemma coverage_Nil: "coverage v [] = 0"
  by (simp add: coverage_def)

lemma coverage_Cons: "coverage v (x # xs) = (if covers x v then 1 else 0) + coverage v xs"
  by (simp add: coverage_def)

lemma coverage_append: "coverage v (xs @ ys) = coverage v xs + coverage v ys"
  by (simp add: coverage_def)

lemma Gaps_loop_acc:
  "Gaps_loop lh (g0 @ g) ys = (fst (Gaps_loop lh g ys), g0 @ snd (Gaps_loop lh g ys))"
  by (induction ys arbitrary: lh g) simp_all

lemma Gaps_loop_Cons:
  "Gaps_loop lh [] (y # ys) =
     (fst (Gaps_loop (High y + 1) [] ys),
      (if lh <s Low y then [\<lparr>Low = lh, High = Low y - 1\<rparr>] else [])
      @ snd (Gaps_loop (High y + 1) [] ys))"
  using Gaps_loop_acc [of "High y + 1" "[\<lparr>Low = lh, High = Low y - 1\<rparr>]" "[]" ys]
  by (cases "lh <s Low y") simp_all

lemma coverage_first_gap:
  "coverage v (if lh <s Low y then [\<lparr>Low = lh, High = Low y - 1\<rparr>] else [])
   = (if sint lh \<le> sint v \<and> sint v < sint (Low y) then 1 else 0)"
proof (cases "lh <s Low y")
  case True
  then have "sint (Low y - 1) = sint (Low y) - 1"
    by (simp add: sint_cmp sint_pred)
  then show ?thesis
    using True by (auto simp: coverage_def covers_def inBetweenInclusive_def sint_cmp)
next
  case False
  then show ?thesis
    by (auto simp: coverage_def sint_cmp)
qed

lemma walk:
  assumes "chain ys"
  shows "coverage v (ys @ snd (Gaps_loop lh [] ys)) \<le> 1
    \<and> (1 \<le> coverage v (ys @ snd (Gaps_loop lh [] ys)) \<longrightarrow> sint v < sint (fst (Gaps_loop lh [] ys)))
    \<and> (sint lh \<le> sint v \<and> sint v < sint (fst (Gaps_loop lh [] ys))
         \<longrightarrow> 1 \<le> coverage v (ys @ snd (Gaps_loop lh [] ys)))
    \<and> ((\<forall>y \<in> set ys. sint lh \<le> sint (Low y))
         \<longrightarrow> (1 \<le> coverage v (ys @ snd (Gaps_loop lh [] ys)) \<longrightarrow> sint lh \<le> sint v)
             \<and> sint lh \<le> sint (fst (Gaps_loop lh [] ys)))"
  using assms
proof (induction ys arbitrary: lh)
  case Nil
  then show ?case by (simp add: coverage_Nil)
next
  case (Cons y ys)
  let ?lh' = "High y + 1"
  let ?R = "coverage v (ys @ snd (Gaps_loop ?lh' [] ys))"
  let ?cur = "fst (Gaps_loop ?lh' [] ys)"
  have wf: "sint (Low y) \<le> sint (High y)" and succ: "sint ?lh' = sint (High y) + 1"
    using Cons.prems by (simp_all add: chain_def wellFormed_def sint_cmp sint_succ)
  have rest: "chain ys" and lows: "\<forall>z \<in> set ys. sint ?lh' \<le> sint (Low z)"
    using Cons.prems succ by (auto simp: chain_def sint_cmp)
  note IH = Cons.IH [OF rest, of ?lh']
  have R1: "?R \<le> 1" and R2: "1 \<le> ?R \<Longrightarrow> sint v < sint ?cur"
    and R3: "sint ?lh' \<le> sint v \<Longrightarrow> sint v < sint ?cur \<Longrightarrow> 1 \<le> ?R"
    and R4: "1 \<le> ?R \<Longrightarrow> sint ?lh' \<le> sint v" and R5: "sint ?lh' \<le> sint ?cur"
    using IH lows by blast+
  define fg where "fg = (if lh <s Low y then [\<lparr>Low = lh, High = Low y - 1\<rparr>] else [])"
  have fg: "coverage v fg = (if sint lh \<le> sint v \<and> sint v < sint (Low y) then 1 else 0)"
    unfolding fg_def by (rule coverage_first_gap)
  have new: "snd (Gaps_loop lh [] (y # ys)) = fg @ snd (Gaps_loop ?lh' [] ys)"
    unfolding fg_def by (simp only: Gaps_loop_Cons snd_conv)
  have "coverage v ((y # ys) @ fg @ snd (Gaps_loop ?lh' [] ys))
      = (if covers y v then 1 else 0) + coverage v fg + ?R"
    by (simp add: coverage_append coverage_Cons)
  then have total: "coverage v ((y # ys) @ snd (Gaps_loop lh [] (y # ys)))
      = (if sint (Low y) \<le> sint v \<and> sint v \<le> sint (High y) then 1 else 0)
        + (if sint lh \<le> sint v \<and> sint v < sint (Low y) then 1 else 0) + ?R"
    unfolding new fg by (simp add: covers_def inBetweenInclusive_def sint_cmp)
  have cur: "fst (Gaps_loop lh [] (y # ys)) = ?cur"
    by (simp add: Gaps_loop_Cons del: Gaps_loop.simps)
  have past: "sint (High y) < sint ?cur"
    using R5 succ by linarith
  have R0: "?R = 0" if "sint v \<le> sint (High y)"
  proof (rule ccontr)
    assume "?R \<noteq> 0"
    then have "sint ?lh' \<le> sint v"
      using R4 by simp
    then show False
      using that succ by linarith
  qed
  consider (inside) "sint (Low y) \<le> sint v" "sint v \<le> sint (High y)"
    | (gap) "sint lh \<le> sint v" "sint v < sint (Low y)"
    | (right) "sint (High y) < sint v"
    | (left) "sint v < sint lh" "sint v < sint (Low y)"
    by linarith
  then show ?case
  proof cases
    case inside
    then show ?thesis
      unfolding total cur using R0 past by simp
  next
    case gap
    then show ?thesis
      unfolding total cur using R0 past wf by simp
  next
    case right
    then have "sint ?lh' \<le> sint v" and "\<not> sint v < sint (Low y)"
      using succ wf by linarith+
    then show ?thesis
      unfolding total cur using right R1 R2 R3 past wf by auto
  next
    case left
    then show ?thesis
      unfolding total cur using R0 past wf by simp
  qed
qed


lemma overlapping_self: "wellFormed x \<Longrightarrow> overlapping x x"
  by (simp add: overlapping_def wellFormed_def max_i_def min_i_def sint_cmp)

lemma apart_distinct:
  assumes "apart xs" and "\<forall>x \<in> set xs. wellFormed x"
  shows "distinct xs"
  unfolding distinct_conv_nth
proof (intro allI impI)
  fix i j
  assume ij: "i < length xs" "j < length xs" "i \<noteq> j"
  then have "\<not> overlapping (xs ! i) (xs ! j)"
    using assms(1) by (simp add: apart_def)
  moreover have "overlapping (xs ! i) (xs ! i)"
    using assms(2) ij(1) by (simp add: overlapping_self)
  ultimately show "xs ! i \<noteq> xs ! j"
    by auto
qed

lemma apart_set:
  assumes "apart xs" and "a \<in> set xs" and "b \<in> set xs" and "a \<noteq> b"
  shows "\<not> overlapping a b"
proof -
  obtain i j where "i < length xs" "xs ! i = a" "j < length xs" "xs ! j = b"
    using assms(2,3) by (auto simp: in_set_conv_nth)
  then show ?thesis
    using assms(1,4) by (auto simp: apart_def)
qed

lemma chain_sorted:
  assumes "sorted_ByLow ys" and "mset ys = mset xs" and "apart xs"
    and "\<forall>x \<in> set xs. wellFormed x \<and> High x \<noteq> MaxInt64"
  shows "chain ys"
proof -
  have set: "set ys = set xs"
    using assms(2) by (rule mset_eq_setD)
  have "distinct xs"
    using assms(3,4) by (simp add: apart_distinct)
  then have dist: "distinct ys"
    using mset_eq_imp_distinct_iff [OF assms(2)] by simp
  have "High (ys ! i) <s Low (ys ! j)" if "i < j" "j < length ys" for i j
  proof -
    have "i < length ys"
      using that by simp
    then have "ys ! i \<in> set ys" "ys ! j \<in> set ys"
      using that(2) by simp_all
    then have mem: "ys ! i \<in> set xs" "ys ! j \<in> set xs"
      by (simp_all add: set)
    have "ys ! i \<noteq> ys ! j"
      using that dist \<open>i < length ys\<close> by (simp add: nth_eq_iff_index_eq)
    then have "\<not> overlapping (ys ! i) (ys ! j)"
      using apart_set [OF assms(3) mem] by simp
    moreover have "Low (ys ! i) \<le>s Low (ys ! j)"
      using assms(1) that by (simp add: sorted_ByLow_iff sorted_wrt_iff_nth_less)
    moreover have "wellFormed (ys ! i)" "wellFormed (ys ! j)"
      using assms(4) mem by simp_all
    ultimately show ?thesis
      by (auto simp: overlapping_def wellFormed_def max_i_def min_i_def sint_cmp split: if_splits)
  qed
  then show ?thesis
    using assms(4) set by (simp add: chain_def sorted_wrt_iff_nth_less)
qed

lemma Gaps_of_trailing:
  "Gaps_of minLow maxHigh ys =
     snd (Gaps_loop minLow [] ys)
     @ (if Gaps_cursor minLow ys <s maxHigh
        then [\<lparr>Low = Gaps_cursor minLow ys, High = maxHigh\<rparr>] else [])"
  by (simp add: Gaps_of_def Gaps_cursor_def split: prod.splits)

lemma tiling_chain:
  assumes "chain ys"
  shows "coverage v (ys @ Gaps_of minLow maxHigh ys) \<le> 1
    \<and> (minLow \<le>s v \<and> v \<le>s maxHigh
         \<and> \<not> (v = maxHigh \<and> Gaps_cursor minLow ys = maxHigh)
        \<longrightarrow> coverage v (ys @ Gaps_of minLow maxHigh ys) = 1)"
proof -
  let ?W = "coverage v (ys @ snd (Gaps_loop minLow [] ys))"
  let ?cur = "Gaps_cursor minLow ys"
  define tg where "tg = (if ?cur <s maxHigh then [\<lparr>Low = ?cur, High = maxHigh\<rparr>] else [])"
  have tg: "coverage v tg
      = (if sint ?cur < sint maxHigh \<and> sint ?cur \<le> sint v \<and> sint v \<le> sint maxHigh then 1 else 0)"
    unfolding tg_def by (simp add: coverage_def covers_def inBetweenInclusive_def sint_cmp)
  have total: "coverage v (ys @ Gaps_of minLow maxHigh ys) = ?W + coverage v tg"
    unfolding Gaps_of_trailing tg_def [symmetric] by (simp add: coverage_append)
  have W1: "?W \<le> 1" and W2: "1 \<le> ?W \<Longrightarrow> sint v < sint ?cur"
    and W3: "sint minLow \<le> sint v \<Longrightarrow> sint v < sint ?cur \<Longrightarrow> 1 \<le> ?W"
    using walk [OF assms, of v minLow] by (simp_all add: Gaps_cursor_def)
  have W0: "?W = 0" if "sint ?cur \<le> sint v"
    using W2 that by (cases "?W") auto
  have eq: "v = maxHigh \<and> ?cur = maxHigh"
    if "sint ?cur = sint maxHigh" "sint ?cur \<le> sint v" "sint v \<le> sint maxHigh"
  proof
    have "sint v = sint maxHigh"
      using that by linarith
    then show "v = maxHigh"
      by (rule signed_word_eqI)
    show "?cur = maxHigh"
      using that(1) by (rule signed_word_eqI)
  qed
  show ?thesis
  proof (cases "sint v < sint ?cur")
    case True
    then show ?thesis
      unfolding total tg using W1 W3 by (auto simp: sint_cmp)
  next
    case False
    then show ?thesis
      unfolding total tg using W0 eq by (auto simp: sint_cmp)
  qed
qed

lemma apart_single: "apart [x]"
  by (simp add: apart_def)

lemma insertionSort_single: "insertionSort [x] = [x]"
  by (simp add: insertionSort_def)

lemma tiled_eval:
  "Intervals (snd (Gaps insertionSort tiled)) = [\<lparr>Low = 5, High = 10\<rparr>, \<lparr>Low = 20, High = 29\<rparr>]"
  "fst (Gaps insertionSort tiled)
     = [\<lparr>Low = 0, High = 4\<rparr>, \<lparr>Low = 11, High = 19\<rparr>, \<lparr>Low = 30, High = 40\<rparr>]"
  "Intervals tiled = [\<lparr>Low = 20, High = 29\<rparr>, \<lparr>Low = 5, High = 10\<rparr>]"
  "MinLow tiled = 0" "MaxHigh tiled = 40"
  by (simp_all add: tiled_def Gaps_def Sort_def Add_def NewIntervals_def insertionSort_def
      Less_def Gaps_of_def sint_cmp)

text \<open>
  Claim C1, as amended. For every collection whose intervals are well-formed (\<open>Low \<le> High\<close>),
  end below \<open>MaxInt64\<close> and are pairwise non-overlapping (nesting included), no integer lies
  in more than one interval of the items followed by the gaps that \<^verbatim>\<open>Gaps()\<close> returns, and
  every point of the domain [minLow, maxHigh] lies in exactly one of them. The statement
  leaves one case open: the point maxHigh when the walk ends with its cursor at maxHigh.
\<close>

theorem Gaps_tiling:
  assumes "sort_contract srt" and "reachable srt c"
    and "\<forall>x \<in> set (Intervals c). Low x \<le>s High x \<and> High x \<noteq> MaxInt64"
    and "apart (Intervals c)"
  shows "coverage v (Intervals (snd (Gaps srt c)) @ fst (Gaps srt c)) \<le> 1
    \<and> (MinLow c \<le>s v \<and> v \<le>s MaxHigh c
         \<and> \<not> (v = MaxHigh c \<and> Gaps_cursor (MinLow c) (Intervals (snd (Gaps srt c))) = MaxHigh c)
        \<longrightarrow> coverage v (Intervals (snd (Gaps srt c)) @ fst (Gaps srt c)) = 1)"
proof -
  let ?s = "Sort srt c"
  have "sorted_ByLow (Intervals ?s)"
    using Sort_inv [OF assms(1) reachable_inv [OF assms(1,2)]] .
  moreover have "mset (Intervals ?s) = mset (Intervals c)"
    using Sort_Intervals_mset [OF assms(1)] .
  ultimately have "chain (Intervals ?s)"
    using assms(3,4) by (intro chain_sorted [where xs = "Intervals c"]) (simp_all add: wellFormed_def)
  moreover have "MinLow ?s = MinLow c" "MaxHigh ?s = MaxHigh c"
    by (simp_all add: Sort_def)
  ultimately show ?thesis
    using tiling_chain [of "Intervals ?s" v "MinLow c" "MaxHigh c"]
    by (simp add: Gaps_def Let_def)
qed

theorem Gaps_tiling_witness:
  "coverage 15 (Intervals (snd (Gaps insertionSort tiled)) @ fst (Gaps insertionSort tiled)) = 1"
proof -
  have "reachable insertionSort tiled"
    unfolding tiled_def by (intro reachable.intros)
  moreover have "apart (Intervals tiled)"
    by (simp add: tiled_eval apart_def overlapping_def max_i_def min_i_def sint_cmp
        less_Suc_eq)
  moreover have "\<forall>x \<in> set (Intervals tiled). Low x \<le>s High x \<and> High x \<noteq> MaxInt64"
    by (simp add: tiled_eval MaxInt64_def sint_cmp)
  ultimately show ?thesis
    using Gaps_tiling [OF insertionSort_contract, of tiled 15]
    by (simp add: tiled_eval(4,5) sint_cmp)
qed

text \<open>
  Claim C1, as stated, fails: in the domain [0,40] the single interval [10,5] overlaps
  nothing, \<^verbatim>\<open>Gaps()\<close> returns [0,9] and [6,40], and the domain point 7 lies in both.
\<close>

theorem Gaps_tiling_counterexample:
  "sort_contract insertionSort \<and> reachable insertionSort inverted
   \<and> apart (Intervals inverted)
   \<and> MinLow inverted \<le>s 7 \<and> 7 \<le>s MaxHigh inverted
   \<and> fst (Gaps insertionSort inverted) = [\<lparr>Low = 0, High = 9\<rparr>, \<lparr>Low = 6, High = 40\<rparr>]
   \<and> coverage 7 (Intervals (snd (Gaps insertionSort inverted)) @ fst (Gaps insertionSort inverted)) = 2"
proof -
  have "reachable insertionSort inverted"
    unfolding inverted_def by (intro reachable.intros)
  moreover have "fst (Gaps insertionSort inverted) = [\<lparr>Low = 0, High = 9\<rparr>, \<lparr>Low = 6, High = 40\<rparr>]"
    by (simp add: inverted_def Gaps_def Sort_def Add_def NewIntervals_def insertionSort_single
        Gaps_of_def sint_cmp)
  moreover have "Intervals (snd (Gaps insertionSort inverted)) = [\<lparr>Low = 10, High = 5\<rparr>]"
    by (simp add: inverted_def Gaps_def Sort_def Add_def NewIntervals_def insertionSort_single)
  moreover have "Intervals inverted = [\<lparr>Low = 10, High = 5\<rparr>]" "MinLow inverted = 0" "MaxHigh inverted = 40"
    by (simp_all add: inverted_def Add_def NewIntervals_def)
  ultimately show ?thesis
    by (simp add: insertionSort_contract apart_single coverage_def covers_def
        inBetweenInclusive_def sint_cmp)
qed

text \<open>
  Two more runs of the walk. With the interval [0,39] in the domain [0,40] the cursor ends
  at 40, the test \<^verbatim>\<open>lastHigh < maxHigh\<close> fails and no gap holds the point 40. With an
  interval that ends at \<open>MaxInt64\<close> the cursor wraps around to \<open>MinInt64\<close>.
\<close>

lemma Gaps_last_point:
  "fst (Gaps insertionSort (Add (NewIntervals 0 40) \<lparr>Low = 0, High = 39\<rparr>)) = []"
  by (simp add: Gaps_def Sort_def Add_def NewIntervals_def insertionSort_single Gaps_of_def sint_cmp)

lemma Gaps_wraps:
  "fst (Gaps insertionSort (Add NewIntervalsDefault \<lparr>Low = 0, High = MaxInt64\<rparr>))
   = [\<lparr>Low = MinInt64, High = MaxInt64\<rparr>]"
  by (simp add: Gaps_def Sort_def Add_def NewIntervalsDefault_def NewIntervals_def
      insertionSort_single Gaps_of_def MaxInt64_def MinInt64_def sint_cmp)

section \<open>The loops of the rendering\<close>

lemma Print_list_loop_joined:
  "Print_list_loop i t xs = t @ (if i \<noteq> 0 \<and> xs \<noteq> [] then '', '' else []) @ joined xs"
proof (induction xs arbitrary: i t rule: joined.induct)
  case 1
  show ?case by simp
next
  case (2 x)
  show ?case by simp
next
  case (3 x y xs)
  show ?case
    using "3.IH" [of "Suc i" "(if i \<noteq> 0 then t @ '', '' else t) @ fmt_interval x"]
    by simp
qed

lemma sint_lt_MaxInt64: "(a :: int64) \<noteq> MaxInt64 \<Longrightarrow> sint a < 9223372036854775807"
proof -
  assume "a \<noteq> MaxInt64"
  then have "sint a \<noteq> sint MaxInt64"
    by (auto dest: signed_word_eqI)
  then show ?thesis
    using sint_le_MaxInt64 [of a] by (simp add: sint_MaxInt64)
qed

lemma Print_full_loop_returns:
  assumes "high \<noteq> MaxInt64"
  shows "Print_full_loop overlapped high i st \<noteq> None"
proof (induction "nat (sint high + 1 - sint i)" arbitrary: i st rule: less_induct)
  case less
  show ?case
  proof (cases "i \<le>s high")
    case False
    then show ?thesis
      by (subst Print_full_loop.simps) simp
  next
    case True
    have "sint high < 9223372036854775807"
      using assms by (rule sint_lt_MaxInt64)
    then have "i \<noteq> MaxInt64"
      using True by (auto simp: sint_cmp sint_MaxInt64)
    then have "sint (i + 1) = sint i + 1"
      by (rule sint_succ)
    then have "nat (sint high + 1 - sint (i + 1)) < nat (sint high + 1 - sint i)"
      using True by (simp add: sint_cmp)
    from less [OF this]
    have "Print_full_loop overlapped high (i + 1) (Print_full_body overlapped st) \<noteq> None" .
    then show ?thesis
      using True by (subst Print_full_loop.simps) simp
  qed
qed

lemma Print_loop_returns:
  assumes "\<forall>x \<in> set xs. High x \<noteq> MaxInt64"
  shows "Print_loop overlapped i st xs \<noteq> None"
  using assms
proof (induction xs arbitrary: i st)
  case Nil
  show ?case by simp
next
  case (Cons x xs)
  obtain t index graph n where st: "st = (t, index, graph, n)"
    by (cases st) auto
  let ?full = "Print_full_loop overlapped (High x)
             (fst (Print_empty_loop (Low x) index (index, graph, n)))
             (Print_empty_loop (Low x) index (index, graph, n))"
  have "?full \<noteq> None"
    by (rule Print_full_loop_returns) (use Cons.prems in simp)
  then obtain r where "?full = Some r"
    by (cases ?full) simp_all
  then show ?case
    using Cons.IH Cons.prems by (cases r) (simp add: st)
qed

lemma Print_loop_text:
  "Print_loop overlapped i (t, index, graph, n) xs =
     (case Print_loop overlapped 0 ([], index, graph, n) xs of
        None \<Rightarrow> None
      | Some (t', r) \<Rightarrow> Some (Print_list_loop i t xs, r))"
proof (induction xs arbitrary: i t index graph n)
  case Nil
  show ?case by simp
next
  case (Cons x xs)
  let ?full = "Print_full_loop overlapped (High x)
             (fst (Print_empty_loop (Low x) index (index, graph, n)))
             (Print_empty_loop (Low x) index (index, graph, n))"
  show ?case
  proof (cases ?full)
    case None
    then show ?thesis by simp
  next
    case (Some r)
    obtain index' graph' n' where r: "r = (index', graph', n')"
      by (cases r) auto
    show ?thesis
      using Cons.IH [of "Suc i" "(if i \<noteq> 0 then t @ '', '' else t) @ fmt_interval x" index' graph' n']
        Cons.IH [of "Suc 0" "fmt_interval x" index' graph' n']
      by (simp add: Some r split: option.splits)
  qed
qed


section \<open>The order of the parts of a text\<close>

lemma after_first_None: "after_first p s = None \<Longrightarrow> s \<noteq> u @ p @ v"
proof (induction s arbitrary: u)
  case Nil
  then show ?case by (auto split: if_splits)
next
  case (Cons c s)
  show ?case
  proof (cases u)
    case Nil
    then show ?thesis
      using Cons.prems by (auto split: if_splits)
  next
    case (Cons d u')
    then show ?thesis
      using Cons.prems Cons.IH [of u'] by (auto split: if_splits)
  qed
qed

lemma after_first_Some: "after_first p s = Some v \<Longrightarrow> \<exists>u. s = u @ p @ v"
proof (induction s)
  case Nil
  then show ?case by (auto split: if_splits)
next
  case (Cons c s)
  show ?case
  proof (cases "take (length p) (c # s) = p")
    case True
    then have "c # s = [] @ p @ v"
      using Cons.prems by (metis append_Nil append_take_drop_id after_first.simps(2) option.inject)
    then show ?thesis by blast
  next
    case False
    then obtain u where "s = u @ p @ v"
      using Cons by auto
    then have "c # s = (c # u) @ p @ v"
      by simp
    then show ?thesis by blast
  qed
qed

lemma after_first_least:
  "after_first p s = Some v \<Longrightarrow> s = u' @ p @ v' \<Longrightarrow> \<exists>w. v = w @ v'"
proof (induction s arbitrary: u')
  case Nil
  then show ?case by (auto split: if_splits)
next
  case (Cons c s)
  show ?case
  proof (cases "take (length p) (c # s) = p")
    case True
    then have v: "v = drop (length p) (c # s)"
      using Cons.prems(1) by simp
    have "c # s = (u' @ p) @ v'"
      using Cons.prems(2) by simp
    then have "v = drop (length p) (u' @ p) @ drop (length p - length (u' @ p)) v'"
      unfolding v by (simp only: drop_append)
    then have "v = drop (length p) (u' @ p) @ v'"
      by simp
    then show ?thesis by blast
  next
    case False
    then have "u' \<noteq> []"
      using Cons.prems(2) by auto
    then obtain d u'' where "u' = d # u''"
      by (cases u') auto
    then have "s = u'' @ p @ v'"
      using Cons.prems(2) by simp
    moreover have "after_first p s = Some v"
      using Cons.prems(1) False by simp
    ultimately show ?thesis
      using Cons.IH by blast
  qed
qed

lemma in_order_prepend: "in_order ps v \<Longrightarrow> in_order ps (w @ v)"
proof (cases ps)
  case Nil
  then show ?thesis by simp
next
  case (Cons p ps')
  assume "in_order ps v"
  then obtain u v' where "v = u @ p @ v'" "in_order ps' v'"
    using Cons by auto
  then have "w @ v = (w @ u) @ p @ v'" "in_order ps' v'"
    by simp_all
  then show ?thesis
    unfolding Cons in_order.simps by blast
qed

lemma in_order_scan: "in_order ps s = scan ps s"
proof (induction ps arbitrary: s)
  case Nil
  show ?case by simp
next
  case (Cons p ps)
  show ?case
  proof (cases "after_first p s")
    case None
    then show ?thesis
      using after_first_None [of p s] by auto
  next
    case (Some v)
    obtain u where u: "s = u @ p @ v"
      using after_first_Some [OF Some] by blast
    have "in_order (p # ps) s = in_order ps v"
    proof
      assume "in_order (p # ps) s"
      then obtain u' v' where "s = u' @ p @ v'" "in_order ps v'"
        by auto
      then show "in_order ps v"
        using after_first_least [OF Some] in_order_prepend by blast
    next
      assume "in_order ps v"
      then show "in_order (p # ps) s"
        using u by auto
    qed
    then show ?thesis
      using Cons.IH [of v] Some by simp
  qed
qed

lemma in_order_ConsI: "in_order ps v \<Longrightarrow> in_order (p # ps) (u @ p @ v)"
  by auto

lemma in_order_ConsI0: "in_order ps v \<Longrightarrow> in_order (p # ps) (p @ v)"
  using in_order_ConsI [of ps v p "[]"] by simp

lemma in_order_parts:
  "in_order [p1, p2, p3, p4, p5, p6, p7]
     (u1 @ p1 @ p2 @ p3 @ p4 @ p5 @ u6 @ p6 @ u7 @ p7 @ u8)"
  by (rule in_order_ConsI, rule in_order_ConsI0, rule in_order_ConsI0, rule in_order_ConsI0,
      rule in_order_ConsI0, rule in_order_ConsI, rule in_order_ConsI, simp)

section \<open>The layout of the rendered text\<close>

lemma Print_unfold:
  "Print srt c =
     (case Print_graph (Overlapped_of (Intervals (Sort srt c))) (MinLow c) (MaxHigh c)
             (Intervals (Sort srt c)) of
        None \<Rightarrow> None
      | Some (graph, numSeparators) \<Rightarrow>
          Some (''\<newline>'' @ introText c @ legend
                @ (''\<newline> '' @ bullet @ '' Intervals: '' @ joined (Intervals (Sort srt c)))
                @ (''\<newline> '' @ bullet @ '' Gaps: '' @ joined (fst (Gaps srt c)))
                @ (''\<newline> '' @ bullet @ '' Overlapped: '' @ joined (fst (Overlapped srt c)))
                @ ''\<newline>\<newline>'' @ axisLegend c numSeparators
                @ ''\<newline>'' @ frameLeft @ graph @ frameRight @ ''\<newline>'',
                Sort srt c))"
proof -
  let ?s = "Sort srt c"
  have s: "Sort srt ?s = ?s" "MinLow ?s = MinLow c" "MaxHigh ?s = MaxHigh c"
    by (simp_all add: Sort_def)
  have ov: "Overlapped srt ?s = (Overlapped_of (Intervals ?s), ?s)"
    by (simp add: Overlapped_def Let_def s)
  have gp: "Gaps srt ?s = (Gaps_of (MinLow c) (MaxHigh c) (Intervals ?s), ?s)"
    by (simp add: Gaps_def Let_def s)
  have ov': "fst (Overlapped srt c) = Overlapped_of (Intervals ?s)"
    by (simp add: Overlapped_def Let_def)
  have gp': "fst (Gaps srt c) = Gaps_of (MinLow c) (MaxHigh c) (Intervals ?s)"
    by (simp add: Gaps_def Let_def s)
  have it: "introText ?s = introText c" "axisLegend ?s n = axisLegend c n" for n
    by (simp_all add: introText_def axisLegend_def s)
  show ?thesis
    unfolding Print_def Let_def ov gp fst_conv snd_conv ov' gp' it s
    by (subst Print_loop_text)
      (simp add: Print_graph_def Print_list_loop_joined split: option.splits)
qed

lemma Print_layout_core:
  assumes "sort_contract srt" and "\<forall>x \<in> set (Intervals c). High x \<noteq> MaxInt64"
  shows "Print_graph (Overlapped_of (Intervals (Sort srt c))) (MinLow c) (MaxHigh c)
           (Intervals (Sort srt c)) \<noteq> None
    \<and> Print srt c \<noteq> None"
proof -
  let ?ys = "Intervals (Sort srt c)"
  have "set ?ys = set (Intervals c)"
    using Sort_Intervals_mset [OF assms(1)] by (rule mset_eq_setD)
  then have "\<forall>x \<in> set ?ys. High x \<noteq> MaxInt64"
    using assms(2) by simp
  then have "Print_loop (Overlapped_of ?ys) 0 ([], MinLow c, [], 0) ?ys \<noteq> None"
    by (rule Print_loop_returns)
  then have "Print_graph (Overlapped_of ?ys) (MinLow c) (MaxHigh c) ?ys \<noteq> None"
    by (auto simp: Print_graph_def split: option.splits)
  then show ?thesis
    by (subst Print_unfold) (auto split: option.splits)
qed

text \<open>
  The other way round: the loop over the units of an interval returns only when the
  interval does not end at \<open>MaxInt64\<close>, and \<^verbatim>\<open>Print\<close> does not return for a collection that
  holds an interval ending there.
\<close>

lemma sle_MaxInt64: "i \<le>s MaxInt64"
  using sint_le_MaxInt64 [of i] by (simp add: sint_cmp sint_MaxInt64)

lemma Print_full_loop_Some:
  assumes "Print_full_loop overlapped high i st = Some y"
  shows "high \<noteq> MaxInt64"
  using assms
proof (rule Print_full_loop.raw_induct [where P = "\<lambda>overlapped high i st y. high \<noteq> MaxInt64", rotated])
  fix f overlapped high i st y
  assume IH: "\<And>a b c d y. f a b c d = Some y \<Longrightarrow> b \<noteq> MaxInt64"
    and step: "(if i \<le>s high then f overlapped high (i + 1) (Print_full_body overlapped st)
                else Some st) = Some y"
  show "high \<noteq> MaxInt64"
  proof (cases "i \<le>s high")
    case True
    then show ?thesis
      using step IH by simp
  next
    case False
    then show ?thesis
      using sle_MaxInt64 [of i] by auto
  qed
qed

lemma Print_full_loop_diverges: "Print_full_loop overlapped MaxInt64 i st = None"
  using Print_full_loop_Some [of overlapped MaxInt64 i st] by (cases "Print_full_loop overlapped MaxInt64 i st") auto

lemma Print_loop_diverges:
  assumes "\<exists>x \<in> set xs. High x = MaxInt64"
  shows "Print_loop overlapped i st xs = None"
  using assms
proof (induction xs arbitrary: i st)
  case Nil
  then show ?case by simp
next
  case (Cons x xs)
  obtain t index graph n where st: "st = (t, index, graph, n)"
    by (cases st) auto
  let ?full = "Print_full_loop overlapped (High x)
             (fst (Print_empty_loop (Low x) index (index, graph, n)))
             (Print_empty_loop (Low x) index (index, graph, n))"
  show ?case
  proof (cases ?full)
    case None
    then show ?thesis by (simp add: st)
  next
    case (Some r)
    then have "High x \<noteq> MaxInt64"
      by (rule Print_full_loop_Some)
    then have "\<exists>x \<in> set xs. High x = MaxInt64"
      using Cons.prems by auto
    then show ?thesis
      using Cons.IH Some by (cases r) (simp add: st)
  qed
qed

lemma Print_diverges:
  assumes "sort_contract srt" and "\<exists>x \<in> set (Intervals c). High x = MaxInt64"
  shows "Print srt c = None"
proof -
  have "set (Intervals (Sort srt c)) = set (Intervals c)"
    using Sort_Intervals_mset [OF assms(1)] by (rule mset_eq_setD)
  then have "\<exists>x \<in> set (Intervals (Sort srt c)). High x = MaxInt64"
    using assms(2) by simp
  then show ?thesis
    by (subst Print_unfold) (simp add: Print_graph_def Print_loop_diverges)
qed

lemmas Print_eval =
  Print_def Let_def Sort_def Add_def NewIntervals_def insertionSort_def Less_def
  Overlapped_def Overlapped_of_def Overlapped_body_def inBetweenInclusive_def max_i_def min_i_def
  Gaps_def Gaps_of_def MaxInt64_def MinInt64_def
  Print_empty_loop.simps Print_full_loop.simps Print_full_body_def Print_pad_loop.simps
  axisLegend_def introText_def fmt_interval_def fmt_d_def digits.simps digit_def
  signed_modulo_int_def sint_cmp

lemma Print_small: "Print insertionSort small = Some (small_text, Sort insertionSort small)"
  by (simp add: small_def small_text_def small_graph_def Print_eval)

text \<open>
  Claim C5, as amended. For every collection none of whose intervals ends at \<open>MaxInt64\<close>,
  \<^verbatim>\<open>Print()\<close> returns, and its text is, in this order: the header, the legend, the list of
  the intervals, the list of the gaps, the list of the overlaps, then the axis line with
  minLow at its left and maxHigh at its right, and after it the graph line in its frame.
\<close>

theorem Print_layout:
  assumes "sort_contract srt" and "\<forall>x \<in> set (Intervals c). High x \<noteq> MaxInt64"
  shows "\<exists>graph numSeparators result.
     Print_graph (fst (Overlapped srt c)) (MinLow c) (MaxHigh c) (Intervals (Sort srt c))
       = Some (graph, numSeparators)
     \<and> Print srt c = Some (result, Sort srt c)
     \<and> result =
         ''\<newline>'' @ introText c @ legend
         @ (''\<newline> '' @ bullet @ '' Intervals: '' @ joined (Intervals (Sort srt c)))
         @ (''\<newline> '' @ bullet @ '' Gaps: '' @ joined (fst (Gaps srt c)))
         @ (''\<newline> '' @ bullet @ '' Overlapped: '' @ joined (fst (Overlapped srt c)))
         @ ''\<newline>\<newline>'' @ axisLegend c numSeparators
         @ ''\<newline>'' @ frameLeft @ graph @ frameRight @ ''\<newline>''
     \<and> in_order
         [introText c, legend,
          ''\<newline> '' @ bullet @ '' Intervals: '' @ joined (Intervals (Sort srt c)),
          ''\<newline> '' @ bullet @ '' Gaps: '' @ joined (fst (Gaps srt c)),
          ''\<newline> '' @ bullet @ '' Overlapped: '' @ joined (fst (Overlapped srt c)),
          axisLegend c numSeparators,
          frameLeft @ graph @ frameRight]
         result"
proof -
  let ?ys = "Intervals (Sort srt c)"
  obtain graph n where
    g: "Print_graph (Overlapped_of ?ys) (MinLow c) (MaxHigh c) ?ys = Some (graph, n)"
    using Print_layout_core [OF assms] by auto
  have ov: "fst (Overlapped srt c) = Overlapped_of ?ys"
    by (simp add: Overlapped_def Let_def)
  let ?p3 = "''\<newline> '' @ bullet @ '' Intervals: '' @ joined ?ys"
  let ?p4 = "''\<newline> '' @ bullet @ '' Gaps: '' @ joined (fst (Gaps srt c))"
  let ?p5 = "''\<newline> '' @ bullet @ '' Overlapped: '' @ joined (fst (Overlapped srt c))"
  let ?p7 = "frameLeft @ graph @ frameRight"
  let ?result = "''\<newline>'' @ introText c @ legend @ ?p3 @ ?p4 @ ?p5
     @ ''\<newline>\<newline>'' @ axisLegend c n @ ''\<newline>'' @ ?p7 @ ''\<newline>''"
  have "Print srt c = Some (?result, Sort srt c)"
    using g by (subst Print_unfold) (simp add: ov)
  moreover have "in_order [introText c, legend, ?p3, ?p4, ?p5, axisLegend c n, ?p7] ?result"
    by (rule in_order_parts)
  ultimately show ?thesis
    using g ov by (metis append_assoc)
qed

theorem Print_layout_witness:
  "Print insertionSort small = Some (small_text, Sort insertionSort small)"
  using Print_layout [OF insertionSort_contract, of small]
  by (simp add: Print_small)

section \<open>The graph line and the axis line\<close>

text \<open>
  Claim C5, as stated, fails: for the domain [0,12] with the interval [2,3], the parts do not
  occur in the order header, legend, intervals, gaps, overlaps, graph line, axis line. The
  axis line stands before the graph line.
\<close>

theorem Print_order_counterexample:
  "Print insertionSort small = Some (small_text, Sort insertionSort small)
   \<and> \<not> in_order
        [introText small, legend,
         ''\<newline> '' @ bullet @ '' Intervals: [2,3]'',
         ''\<newline> '' @ bullet @ '' Gaps: [0,1], [4,12]'',
         ''\<newline> '' @ bullet @ '' Overlapped: '',
         frameLeft @ small_graph @ frameRight,
         '' 0          12'']
        small_text"
  unfolding in_order_scan
  by (simp add: Print_small)
    (simp add: small_text_def small_graph_def small_def introText_def legend_def bullet_def
      emptySymbol_def fullSymbol_def overlapSymbol_def frameLeft_def frameRight_def
      Add_def NewIntervals_def fmt_d_def digits.simps digit_def)


section \<open>The rendered text and the order of insertion\<close>

lemma foldl_Add:
  "foldl Add c xs = c\<lparr>Intervals := Intervals c @ xs, Sorted := (xs = [] \<and> Sorted c)\<rparr>"
  by (induction xs arbitrary: c) (simp_all add: Add_def)

lemma Sort_build:
  "Sort srt (build minLow maxHigh xs)
   = \<lparr>Intervals = srt xs, MinLow = minLow, MaxHigh = maxHigh, Sorted = True\<rparr>"
  by (simp add: build_def foldl_Add Sort_def NewIntervals_def)

lemma Print_by_Sort: "Sort srt c = Sort srt d \<Longrightarrow> Print srt c = Print srt d"
  by (simp add: Print_def)

lemmas build_eval = build_def foldl.simps

text \<open>
  With distinct low bounds the sorted order is forced, so the two collections are the same
  after \<^verbatim>\<open>Sort\<close> and \<^verbatim>\<open>Print\<close> does the same on both, whether it returns or not.
\<close>

lemma Print_same_order:
  assumes "sort_contract srt" and "mset xs = mset ys" and "inj_on Low (set xs)"
  shows "Print srt (build minLow maxHigh xs) = Print srt (build minLow maxHigh ys)"
proof -
  have c: "mset (srt xs) = mset xs" "mset (srt ys) = mset ys"
    "sorted_ByLow (srt xs)" "sorted_ByLow (srt ys)"
    using assms(1) by (simp_all add: sort_contract_def)
  have "set (srt xs) = set xs"
    using c(1) by (rule mset_eq_setD)
  then have "inj_on Low (set (srt xs))"
    using assms(3) by simp
  then have "srt ys = srt xs"
    using c assms(2) by (intro sorted_ByLow_unique) simp_all
  then show ?thesis
    by (intro Print_by_Sort) (simp add: Sort_build)
qed

text \<open>
  Claim C4, as amended. Two collections with the same domain, built by adding the same
  intervals in two orders, where no two different intervals among them have the same low
  bound and none of them ends at \<open>MaxInt64\<close>: \<^verbatim>\<open>Print()\<close> returns on both, and returns the
  same string.
\<close>

theorem Print_deterministic:
  assumes "sort_contract srt" and "mset xs = mset ys" and "inj_on Low (set xs)"
    and "\<forall>x \<in> set xs. High x \<noteq> MaxInt64"
  shows "\<exists>result s.
     Print srt (build minLow maxHigh xs) = Some (result, s)
     \<and> Print srt (build minLow maxHigh ys) = Some (result, s)"
proof -
  have "Intervals (build minLow maxHigh xs) = xs"
    by (simp add: build_def foldl_Add NewIntervals_def)
  then have "\<forall>x \<in> set (Intervals (build minLow maxHigh xs)). High x \<noteq> MaxInt64"
    using assms(4) by simp
  then have "Print srt (build minLow maxHigh xs) \<noteq> None"
    using Print_layout_core [OF assms(1)] by blast
  then obtain result s where "Print srt (build minLow maxHigh xs) = Some (result, s)"
    by (cases "Print srt (build minLow maxHigh xs)") auto
  then show ?thesis
    using Print_same_order [OF assms(1,2,3), of minLow maxHigh] by auto
qed

theorem Print_deterministic_witness:
  "map_option fst (Print insertionSort (build 0 12 shuffled))
     = map_option fst (Print insertionSort (build 0 12 ordered))
   \<and> Print insertionSort (build 0 12 shuffled) \<noteq> None
   \<and> Print insertionSort (build 0 12 ordered) \<noteq> None"
proof -
  have "mset shuffled = mset ordered" and "inj_on Low (set shuffled)"
    and "\<forall>x \<in> set shuffled. High x \<noteq> MaxInt64"
    by (simp_all add: shuffled_def ordered_def MaxInt64_def)
  then show ?thesis
    using Print_deterministic [OF insertionSort_contract, of shuffled ordered 0 12] by auto
qed

text \<open>
  Without the bound on the high bounds there is no string to compare: \<^verbatim>\<open>Print\<close> returns on
  neither collection.
\<close>

lemma Print_neither_returns:
  "Print insertionSort (build 0 12 [\<lparr>Low = 0, High = MaxInt64\<rparr>, \<lparr>Low = 5, High = 6\<rparr>]) = None
   \<and> Print insertionSort (build 0 12 [\<lparr>Low = 5, High = 6\<rparr>, \<lparr>Low = 0, High = MaxInt64\<rparr>]) = None"
  by (intro conjI Print_diverges [OF insertionSort_contract])
    (simp_all add: build_def Add_def NewIntervals_def)

text \<open>
  Claim C4, as stated, fails: the comparator looks at the low bound only, and the insertion sort
  that \<^verbatim>\<open>sort.Sort\<close> runs on a short slice keeps [1,5] and [1,9] in the order in which
  they were added, so the two texts differ.
\<close>

theorem Print_deterministic_counterexample:
  "sort_contract insertionSort \<and> mset tied = mset tied_swapped
   \<and> map_option fst (Print insertionSort (build 0 12 tied))
      \<noteq> map_option fst (Print insertionSort (build 0 12 tied_swapped))"
  by (simp add: insertionSort_contract tied_def tied_swapped_def build_eval Print_eval)

end
